theory Spec2Isabelle
  imports Complex_Main "HOL-Library.Sublist"
begin

section \<open>Shallow embedding of scripts/build_digest_pdf.py\<close>

text \<open>
  Conventions of the embedding.
  \<^item> A Python \<^verbatim>\<open>bytes\<close> value is a \<^typ>\<open>string\<close>: a list of 8-bit characters.
  \<^item> A Python \<^verbatim>\<open>str\<close> is a list of Unicode code points (\<open>pystr\<close>); a single
    character is its code point, so \<^verbatim>\<open>ord\<close> is the identity.
  \<^item> Python integers are \<^typ>\<open>nat\<close> where the source only produces non-negative
    values (unsigned fields, offsets, glyph ids) and \<^typ>\<open>int\<close> otherwise.
  \<^item> Every exception the source can raise is a constructor of \<open>error\<close>; a function
    that can raise returns \<open>error + 'a\<close>.
  \<^item> Floating-point values are modelled as exact rationals (\<^typ>\<open>rat\<close>).
\<close>

subsection \<open>Errors, byte strings and struct.unpack\<close>

type_synonym pystr = "nat list"

datatype error =
    StructError
  | KeyError string
  | KeyError_char nat
  | KeyError_glyph nat
  | UnicodeDecodeError
  | UnicodeEncodeError
  | IndexError
  | ZeroDivisionError
  | RuntimeError_cmap_not_found
  | RuntimeError_unsupported_format nat

definition ebind :: "error + 'a \<Rightarrow> ('a \<Rightarrow> error + 'b) \<Rightarrow> error + 'b" where
  "ebind m f = (case m of Inl e \<Rightarrow> Inl e | Inr x \<Rightarrow> f x)"

fun foldM :: "('s \<Rightarrow> 'a \<Rightarrow> error + 's) \<Rightarrow> 's \<Rightarrow> 'a list \<Rightarrow> error + 's" where
  "foldM f s [] = Inr s"
| "foldM f s (x # xs) = (case f s x of Inl e \<Rightarrow> Inl e | Inr s' \<Rightarrow> foldM f s' xs)"

text \<open>The slice \<^verbatim>\<open>b[i:j]\<close> for non-negative \<open>i\<close> and \<open>j\<close>: it is clamped to the
  buffer, never an error.\<close>

definition slice :: "'a list \<Rightarrow> nat \<Rightarrow> nat \<Rightarrow> 'a list" where
  "slice xs i j = take (j - i) (drop i xs)"

text \<open>Big-endian readers. \<^verbatim>\<open>struct.unpack\<close> raises \<^verbatim>\<open>struct.error\<close> unless the
  buffer has exactly the size of the format.\<close>

fun be_nat :: "string \<Rightarrow> nat" where
  "be_nat [] = 0"
| "be_nat (c # cs) = of_char c * 256 ^ length cs + be_nat cs"

definition unpack_u :: "nat \<Rightarrow> string \<Rightarrow> error + nat" where
  "unpack_u n b = (if length b = n then Inr (be_nat b) else Inl StructError)"

definition to_signed :: "nat \<Rightarrow> nat \<Rightarrow> int" where
  "to_signed bits v = (if v < 2 ^ (bits - 1) then int v else int v - 2 ^ bits)"

definition unpack_s :: "nat \<Rightarrow> string \<Rightarrow> error + int" where
  "unpack_s n b = (if length b = n then Inr (to_signed (8 * n) (be_nat b)) else Inl StructError)"

text \<open>\<^verbatim>\<open>struct.unpack(">" + "H" * n, b)\<close> and its signed variant with \<^verbatim>\<open>"h"\<close>.\<close>

definition unpack_u16s :: "nat \<Rightarrow> string \<Rightarrow> error + nat list" where
  "unpack_u16s n b =
     (if length b = 2 * n then Inr (map (\<lambda>k. be_nat (slice b (2 * k) (2 * k + 2))) [0..<n])
      else Inl StructError)"

definition unpack_s16s :: "nat \<Rightarrow> string \<Rightarrow> error + int list" where
  "unpack_s16s n b =
     (if length b = 2 * n
      then Inr (map (\<lambda>k. to_signed 16 (be_nat (slice b (2 * k) (2 * k + 2)))) [0..<n])
      else Inl StructError)"

subsection \<open>TrueTypeFont\<close>

record TrueTypeFont =
  data :: string
  tables :: "string \<rightharpoonup> nat \<times> nat"
  units_per_em :: nat
  ascender :: int
  descender :: int
  line_gap :: int
  num_h_metrics :: nat
  num_glyphs :: nat
  advance_widths :: "nat list"
  cmap :: "nat \<rightharpoonup> nat"
  s_typo_ascender :: int
  s_typo_descender :: int
  s_cap_height :: int
  head_bbox :: "int \<times> int \<times> int \<times> int"
  italic_angle :: rat

text \<open>\<^verbatim>\<open>_parse_offset_table\<close>: the loop state is the table index and the running offset.\<close>

definition parse_offset_record ::
  "string \<Rightarrow> (string \<rightharpoonup> nat \<times> nat) \<times> nat \<Rightarrow> nat \<Rightarrow> error + (string \<rightharpoonup> nat \<times> nat) \<times> nat" where
  "parse_offset_record d st i =
     (let (tabs, offset) = st; r = slice d offset (offset + 16) in
      if length r \<noteq> 16 then Inl StructError
      else if \<exists>c \<in> set (take 4 r). (of_char c :: nat) \<ge> 128 then Inl UnicodeDecodeError
      else Inr (tabs(take 4 r \<mapsto> (be_nat (slice r 8 12), be_nat (slice r 12 16))), offset + 16))"

definition parse_offset_table :: "string \<Rightarrow> error + (string \<rightharpoonup> nat \<times> nat)" where
  "parse_offset_table d =
     (if length (slice d 0 12) \<noteq> 12 then Inl StructError
      else let num_tables = be_nat (slice d 4 6) in
        ebind (foldM (parse_offset_record d) (Map.empty, 12) [0..<num_tables])
          (\<lambda>st. Inr (fst st)))"

definition get_table :: "(string \<rightharpoonup> nat \<times> nat) \<Rightarrow> string \<Rightarrow> string \<Rightarrow> error + string" where
  "get_table tabs d tag =
     (case tabs tag of None \<Rightarrow> Inl (KeyError tag)
      | Some (offset, len) \<Rightarrow> Inr (slice d offset (offset + len)))"

definition parse_head :: "(string \<rightharpoonup> nat \<times> nat) \<Rightarrow> string \<Rightarrow> error + nat \<times> (int \<times> int \<times> int \<times> int)" where
  "parse_head tabs d =
     ebind (get_table tabs d ''head'') (\<lambda>table.
     ebind (unpack_u 2 (slice table 18 20)) (\<lambda>upm.
     ebind (unpack_s16s 4 (slice table 36 44)) (\<lambda>bb.
       Inr (upm, (bb ! 0, bb ! 1, bb ! 2, bb ! 3)))))"

definition parse_hhea :: "(string \<rightharpoonup> nat \<times> nat) \<Rightarrow> string \<Rightarrow> error + int \<times> int \<times> int \<times> nat" where
  "parse_hhea tabs d =
     ebind (get_table tabs d ''hhea'') (\<lambda>table.
     ebind (unpack_s16s 3 (slice table 4 10)) (\<lambda>v.
     ebind (unpack_u 2 (slice table 34 36)) (\<lambda>nhm.
       Inr (v ! 0, v ! 1, v ! 2, nhm))))"

definition parse_maxp :: "(string \<rightharpoonup> nat \<times> nat) \<Rightarrow> string \<Rightarrow> error + nat" where
  "parse_maxp tabs d =
     ebind (get_table tabs d ''maxp'') (\<lambda>table. unpack_u 2 (slice table 4 6))"

text \<open>\<^verbatim>\<open>_parse_hmtx\<close>: the loop state is the list of widths and the position.\<close>

definition hmtx_entry :: "string \<Rightarrow> nat list \<times> nat \<Rightarrow> nat \<Rightarrow> error + nat list \<times> nat" where
  "hmtx_entry table st i =
     (let (widths, pos) = st; r = slice table pos (pos + 4) in
      if length r \<noteq> 4 then Inl StructError
      else Inr (widths @ [be_nat (take 2 r)], pos + 4))"

definition parse_hmtx :: "(string \<rightharpoonup> nat \<times> nat) \<Rightarrow> string \<Rightarrow> nat \<Rightarrow> nat \<Rightarrow> error + nat list" where
  "parse_hmtx tabs d nhm ng =
     ebind (get_table tabs d ''hmtx'') (\<lambda>table.
     ebind (foldM (hmtx_entry table) ([], 0) [0..<nhm]) (\<lambda>st.
       let widths = fst st in
       if ng > nhm then
         (if widths = [] then Inl IndexError
          else Inr (widths @ replicate (ng - nhm) (last widths)))
       else Inr widths))"

text \<open>\<^verbatim>\<open>_parse_cmap_format4\<close>. \<open>fmt4_glyph\<close> is the body of the inner loop up to the
  assignment: \<open>None\<close> is the \<^verbatim>\<open>continue\<close>.\<close>

definition fmt4_glyph ::
  "string \<Rightarrow> nat \<Rightarrow> nat \<Rightarrow> nat \<Rightarrow> nat \<Rightarrow> nat \<Rightarrow> int \<Rightarrow> nat \<Rightarrow> nat \<Rightarrow> error + nat option" where
  "fmt4_glyph d offset len id_range_offset_offset i start delta ro code =
     (if ro = 0 then Inr (Some (nat ((int code + delta) mod 65536)))
      else
        let ro_address = id_range_offset_offset + 2 * i;
            glyph_index_offset = ro_address + ro + 2 * (code - start) in
        if glyph_index_offset \<ge> offset + len then Inr None
        else ebind (unpack_u 2 (slice d glyph_index_offset (glyph_index_offset + 2)))
          (\<lambda>glyph_index.
             if glyph_index = 0 then Inr (Some 0)
             else Inr (Some (nat ((int glyph_index + delta) mod 65536)))))"

definition fmt4_code ::
  "string \<Rightarrow> nat \<Rightarrow> nat \<Rightarrow> nat \<Rightarrow> nat \<Rightarrow> nat \<Rightarrow> int \<Rightarrow> nat \<Rightarrow> (nat \<rightharpoonup> nat) \<Rightarrow> nat
     \<Rightarrow> error + (nat \<rightharpoonup> nat)" where
  "fmt4_code d offset len iroo i start delta ro m code =
     ebind (fmt4_glyph d offset len iroo i start delta ro code)
       (\<lambda>g. case g of None \<Rightarrow> Inr m | Some glyph \<Rightarrow> Inr (m(code \<mapsto> glyph)))"

definition fmt4_segment ::
  "string \<Rightarrow> nat \<Rightarrow> nat \<Rightarrow> nat \<Rightarrow> nat list \<Rightarrow> nat list \<Rightarrow> int list \<Rightarrow> nat list
     \<Rightarrow> (nat \<rightharpoonup> nat) \<Rightarrow> nat \<Rightarrow> error + (nat \<rightharpoonup> nat)" where
  "fmt4_segment d offset len iroo start_count end_count id_delta id_range_offset m i =
     (let start = start_count ! i; end = end_count ! i;
          delta = id_delta ! i; ro = id_range_offset ! i in
      foldM (fmt4_code d offset len iroo i start delta ro) m [start..<end + 1])"

text \<open>The header and the four parallel arrays of a format 4 subtable, as the source unpacks
  them: \<open>length\<close>, \<open>seg_count\<close>, \<open>id_range_offset_offset\<close>, \<open>end_count\<close>, \<open>start_count\<close>,
  \<open>id_delta\<close> and \<open>id_range_offset\<close>.\<close>

definition fmt4_arrays ::
  "string \<Rightarrow> nat \<Rightarrow> error + nat \<times> nat \<times> nat \<times> nat list \<times> nat list \<times> int list \<times> nat list" where
  "fmt4_arrays d offset =
     (let hdr = slice d (offset + 2) (offset + 8) in
      if length hdr \<noteq> 6 then Inl StructError
      else
        let len = be_nat (slice hdr 0 2);
            seg_count_x2 = be_nat (slice hdr 4 6);
            seg_count = seg_count_x2 div 2;
            end_offset = offset + 14;
            reserved_pad_offset = end_offset + 2 * seg_count;
            id_delta_offset = reserved_pad_offset + 2 + 2 * seg_count;
            id_range_offset_offset = id_delta_offset + 2 * seg_count in
        ebind (unpack_u16s seg_count (slice d end_offset (end_offset + 2 * seg_count)))
          (\<lambda>end_count.
        ebind (unpack_u16s seg_count
                 (slice d (reserved_pad_offset + 2) (reserved_pad_offset + 2 + 2 * seg_count)))
          (\<lambda>start_count.
        ebind (unpack_s16s seg_count (slice d id_delta_offset (id_delta_offset + 2 * seg_count)))
          (\<lambda>id_delta.
        ebind (unpack_u16s seg_count
                 (slice d id_range_offset_offset (id_range_offset_offset + 2 * seg_count)))
          (\<lambda>id_range_offset.
        Inr (len, seg_count, id_range_offset_offset,
             end_count, start_count, id_delta, id_range_offset))))))"

definition parse_cmap_format4 :: "string \<Rightarrow> nat \<Rightarrow> error + (nat \<rightharpoonup> nat)" where
  "parse_cmap_format4 d offset =
     ebind (fmt4_arrays d offset)
       (\<lambda>(len, seg_count, id_range_offset_offset, end_count, start_count, id_delta, id_range_offset).
          foldM (fmt4_segment d offset len id_range_offset_offset
                   start_count end_count id_delta id_range_offset)
            Map.empty [0..<seg_count])"

text \<open>\<^verbatim>\<open>_parse_cmap_format12\<close>: the loop state is the map and the position.\<close>

definition fmt12_code :: "nat \<Rightarrow> nat \<Rightarrow> (nat \<rightharpoonup> nat) \<Rightarrow> nat \<Rightarrow> error + (nat \<rightharpoonup> nat)" where
  "fmt12_code start_char start_glyph m code = Inr (m(code \<mapsto> start_glyph + (code - start_char)))"

definition fmt12_group ::
  "string \<Rightarrow> (nat \<rightharpoonup> nat) \<times> nat \<Rightarrow> nat \<Rightarrow> error + (nat \<rightharpoonup> nat) \<times> nat" where
  "fmt12_group d st i =
     (let (m, pos) = st; r = slice d pos (pos + 12) in
      if length r \<noteq> 12 then Inl StructError
      else
        let start_char = be_nat (slice r 0 4);
            end_char = be_nat (slice r 4 8);
            start_glyph = be_nat (slice r 8 12) in
        ebind (foldM (fmt12_code start_char start_glyph) m [start_char..<end_char + 1])
          (\<lambda>m'. Inr (m', pos + 12)))"

definition parse_cmap_format12 :: "string \<Rightarrow> nat \<Rightarrow> error + (nat \<rightharpoonup> nat)" where
  "parse_cmap_format12 d offset =
     (if length (slice d offset (offset + 4)) \<noteq> 4 then Inl StructError
      else
        let hdr = slice d (offset + 4) (offset + 16) in
        if length hdr \<noteq> 12 then Inl StructError
        else
          let num_groups = be_nat (slice hdr 8 12) in
          ebind (foldM (fmt12_group d) (Map.empty, offset + 16) [0..<num_groups])
            (\<lambda>st. Inr (fst st)))"

text \<open>The fields of a format 12 subtable at \<open>offset\<close>, as the loop above reads them: the
  number of groups, and the triple (startCharCode, endCharCode, startGlyphId) of group \<open>i\<close>.\<close>

definition fmt12_num_groups :: "string \<Rightarrow> nat \<Rightarrow> nat" where
  "fmt12_num_groups d offset = be_nat (slice d (offset + 12) (offset + 16))"

definition fmt12_group_at :: "string \<Rightarrow> nat \<Rightarrow> nat \<Rightarrow> nat \<times> nat \<times> nat" where
  "fmt12_group_at d offset i =
     (let pos = offset + 16 + 12 * i in
      (be_nat (slice d pos (pos + 4)), be_nat (slice d (pos + 4) (pos + 8)),
       be_nat (slice d (pos + 8) (pos + 12))))"

text \<open>Whether the group read at \<open>pos\<close> covers a code point, and the glyph it assigns.\<close>

definition covers12 :: "string \<Rightarrow> nat \<Rightarrow> nat \<Rightarrow> bool" where
  "covers12 d pos c = (be_nat (slice d pos (pos + 4)) \<le> c \<and> c \<le> be_nat (slice d (pos + 4) (pos + 8)))"

definition glyph12 :: "string \<Rightarrow> nat \<Rightarrow> nat \<Rightarrow> nat" where
  "glyph12 d pos c = be_nat (slice d (pos + 8) (pos + 12)) + (c - be_nat (slice d pos (pos + 4)))"

text \<open>\<^verbatim>\<open>_parse_cmap\<close>. The directory scan stops at the first record with platform 3 and
  encoding 1 or 10 (\<^verbatim>\<open>break\<close>): later records are not read.\<close>

fun cmap_scan :: "string \<Rightarrow> nat \<Rightarrow> nat list \<Rightarrow> error + nat option" where
  "cmap_scan table offset [] = Inr None"
| "cmap_scan table offset (i # is) =
     (let r = slice table (4 + i * 8) (12 + i * 8) in
      if length r \<noteq> 8 then Inl StructError
      else
        let platform_id = be_nat (slice r 0 2);
            encoding_id = be_nat (slice r 2 4);
            sub_offset = be_nat (slice r 4 8) in
        if platform_id = 3 \<and> (encoding_id = 1 \<or> encoding_id = 10)
        then Inr (Some (offset + sub_offset))
        else cmap_scan table offset is)"

definition parse_cmap :: "(string \<rightharpoonup> nat \<times> nat) \<Rightarrow> string \<Rightarrow> error + (nat \<rightharpoonup> nat)" where
  "parse_cmap tabs d =
     (case tabs ''cmap'' of None \<Rightarrow> Inl (KeyError ''cmap'')
      | Some (offset, len) \<Rightarrow>
          let table = slice d offset (offset + len) in
          if length (slice table 0 4) \<noteq> 4 then Inl StructError
          else
            let num_tables = be_nat (slice table 2 4) in
            ebind (cmap_scan table offset [0..<num_tables]) (\<lambda>preferred_subtable.
              case preferred_subtable of
                None \<Rightarrow> Inl RuntimeError_cmap_not_found
              | Some p \<Rightarrow>
                  ebind (unpack_u 2 (slice d p (p + 2))) (\<lambda>format_type.
                    if format_type = 4 then parse_cmap_format4 d p
                    else if format_type = 12 then parse_cmap_format12 d p
                    else Inl (RuntimeError_unsupported_format format_type))))"

definition parse_os2 :: "(string \<rightharpoonup> nat \<times> nat) \<Rightarrow> string \<Rightarrow> error + int \<times> int \<times> int" where
  "parse_os2 tabs d =
     ebind (get_table tabs d ''OS/2'') (\<lambda>table.
     ebind (unpack_u 2 (slice table 0 2)) (\<lambda>version.
     ebind (unpack_s 2 (slice table 68 70)) (\<lambda>asc.
     ebind (unpack_s 2 (slice table 70 72)) (\<lambda>desc.
       if version \<ge> 2 \<and> length table \<ge> 88
       then ebind (unpack_s 2 (slice table 88 90)) (\<lambda>cap. Inr (asc, desc, cap))
       else Inr (asc, desc, asc)))))"

definition parse_post :: "(string \<rightharpoonup> nat \<times> nat) \<Rightarrow> string \<Rightarrow> error + rat" where
  "parse_post tabs d =
     (case tabs ''post'' of None \<Rightarrow> Inr 0
      | Some (offset, len) \<Rightarrow>
          let table = slice d offset (offset + len) in
          ebind (unpack_s 4 (slice table 4 8)) (\<lambda>italic_angle_fixed.
            Inr (of_int italic_angle_fixed / 65536)))"

text \<open>\<^verbatim>\<open>TrueTypeFont.__init__\<close>, after the file has been read: the parsers run in the
  order of the source, and the first exception aborts the construction.\<close>

definition parse :: "string \<Rightarrow> error + TrueTypeFont" where
  "parse d =
     ebind (parse_offset_table d) (\<lambda>tabs.
     ebind (parse_head tabs d) (\<lambda>(upm, bbox).
     ebind (parse_hhea tabs d) (\<lambda>(asc, desc, gap, nhm).
     ebind (parse_maxp tabs d) (\<lambda>ng.
     ebind (parse_hmtx tabs d nhm ng) (\<lambda>widths.
     ebind (parse_cmap tabs d) (\<lambda>cm.
     ebind (parse_os2 tabs d) (\<lambda>(tasc, tdesc, cap).
     ebind (parse_post tabs d) (\<lambda>angle.
       Inr \<lparr> data = d, tables = tabs, units_per_em = upm,
             ascender = asc, descender = desc, line_gap = gap,
             num_h_metrics = nhm, num_glyphs = ng, advance_widths = widths,
             cmap = cm, s_typo_ascender = tasc, s_typo_descender = tdesc,
             s_cap_height = cap, head_bbox = bbox, italic_angle = angle \<rparr>))))))))"

subsection \<open>Text formatting and encoding\<close>

text \<open>\<^verbatim>\<open>str(n)\<close> for a non-negative integer, \<^verbatim>\<open>str(i)\<close> for any integer, the format
  \<^verbatim>\<open>{n:010d}\<close> (zero-padded to at least ten characters) and \<^verbatim>\<open>{n:04X}\<close>.\<close>

definition digit_char :: "nat \<Rightarrow> char" where
  "digit_char k = char_of (48 + k)"

fun str_nat :: "nat \<Rightarrow> string" where
  "str_nat n = (if n < 10 then [digit_char n] else str_nat (n div 10) @ [digit_char (n mod 10)])"

declare str_nat.simps [simp del]

definition str_int :: "int \<Rightarrow> string" where
  "str_int i = (if i < 0 then CHR ''-'' # str_nat (nat (- i)) else str_nat (nat i))"

definition fmt_010d :: "nat \<Rightarrow> string" where
  "fmt_010d n = replicate (10 - length (str_nat n)) CHR ''0'' @ str_nat n"





definition ustr :: "string \<Rightarrow> pystr" where
  "ustr s = map of_char s"

fun join :: "'a list \<Rightarrow> 'a list list \<Rightarrow> 'a list" where
  "join sep [] = []"
| "join sep [p] = p"
| "join sep (p # q # ps) = p @ sep @ join sep (q # ps)"

text \<open>\<^verbatim>\<open>s.encode("utf-8")\<close> raises on a surrogate code point; \<^verbatim>\<open>s.encode("ascii")\<close>
  raises on any code point above 127.\<close>

definition utf8_char :: "nat \<Rightarrow> error + string" where
  "utf8_char c =
     (if c < 128 then Inr [char_of c]
      else if c < 2048 then Inr [char_of (192 + c div 64), char_of (128 + c mod 64)]
      else if 55296 \<le> c \<and> c \<le> 57343 then Inl UnicodeEncodeError
      else if c < 65536 then
        Inr [char_of (224 + c div 4096), char_of (128 + c div 64 mod 64), char_of (128 + c mod 64)]
      else
        Inr [char_of (240 + c div 262144), char_of (128 + c div 4096 mod 64),
             char_of (128 + c div 64 mod 64), char_of (128 + c mod 64)])"

fun utf8_encode :: "pystr \<Rightarrow> error + string" where
  "utf8_encode [] = Inr []"
| "utf8_encode (c # cs) =
     (case utf8_char c of Inl e \<Rightarrow> Inl e
      | Inr b \<Rightarrow> (case utf8_encode cs of Inl e \<Rightarrow> Inl e | Inr bs \<Rightarrow> Inr (b @ bs)))"

definition ascii_encode :: "pystr \<Rightarrow> error + string" where
  "ascii_encode s = (if \<forall>c \<in> set s. c < 128 then Inr (map char_of s) else Inl UnicodeEncodeError)"

subsection \<open>FontEncoder\<close>

record FontEncoder =
  font :: TrueTypeFont
  used_chars :: "nat list"
  char_set :: "nat set"
  char_to_gid :: "nat \<rightharpoonup> nat"
  used_glyphs :: "nat list"


definition FontEncoder_init :: "TrueTypeFont \<Rightarrow> FontEncoder" where
  "FontEncoder_init f =
     \<lparr> font = f, used_chars = [], char_set = {}, char_to_gid = Map.empty, used_glyphs = [] \<rparr>"

definition glyph_for_char :: "FontEncoder \<Rightarrow> nat \<Rightarrow> nat" where
  "glyph_for_char e ch = (case cmap (font e) ch of None \<Rightarrow> 0 | Some glyph \<Rightarrow> glyph)"

text \<open>Insertion into a dictionary used as an ordered set (\<^verbatim>\<open>d[k] = None\<close>): a key already
  present keeps its position.\<close>

definition dict_add_key :: "'a list \<Rightarrow> 'a \<Rightarrow> 'a list" where
  "dict_add_key ks k = (if k \<in> set ks then ks else ks @ [k])"

definition register_char :: "FontEncoder \<Rightarrow> nat \<Rightarrow> FontEncoder" where
  "register_char e ch =
     (if ch \<in> char_set e then e
      else let glyph = glyph_for_char e ch in
        e\<lparr> char_set := insert ch (char_set e),
           char_to_gid := (char_to_gid e)(ch \<mapsto> glyph),
           used_glyphs := dict_add_key (used_glyphs e) glyph,
           used_chars := used_chars e @ [ch] \<rparr>)"

fun ensure_text :: "FontEncoder \<Rightarrow> pystr \<Rightarrow> FontEncoder" where
  "ensure_text e [] = e"
| "ensure_text e (ch # rest) = ensure_text (register_char e ch) rest"

text \<open>\<^verbatim>\<open>measure_text\<close>: the loop carries the running total \<open>acc\<close>; the encoder is returned also
  when the call raises, since the registration has happened by then.\<close>

fun measure_loop :: "FontEncoder \<Rightarrow> pystr \<Rightarrow> nat \<Rightarrow> (error + nat) \<times> FontEncoder" where
  "measure_loop e [] acc = (Inr acc, e)"
| "measure_loop e (ch # rest) acc =
     (let e1 = (case char_to_gid e ch of None \<Rightarrow> ensure_text e [ch] | Some g \<Rightarrow> e) in
      case char_to_gid e1 ch of
        None \<Rightarrow> (Inl (KeyError_char ch), e1)
      | Some glyph \<Rightarrow>
          if glyph < length (advance_widths (font e1))
          then measure_loop e1 rest (acc + advance_widths (font e1) ! glyph)
          else (Inl IndexError, e1))"

definition measure_text :: "FontEncoder \<Rightarrow> pystr \<Rightarrow> rat \<Rightarrow> (error + rat) \<times> FontEncoder" where
  "measure_text e txt font_size =
     (case measure_loop e txt 0 of
        (Inl err, e') \<Rightarrow> (Inl err, e')
      | (Inr acc, e') \<Rightarrow>
          if units_per_em (font e') = 0 then (Inl ZeroDivisionError, e')
          else (Inr (of_nat acc / of_nat (units_per_em (font e')) * font_size), e'))"




fun dict_set :: "('k \<times> 'v) list \<Rightarrow> 'k \<Rightarrow> 'v \<Rightarrow> ('k \<times> 'v) list" where
  "dict_set [] k v = [(k, v)]"
| "dict_set ((k', v') # d) k v = (if k' = k then (k, v) # d else (k', v') # dict_set d k v)"






definition w_array :: "(nat \<times> int) list \<Rightarrow> string" where
  "w_array w_entries =
     ''['' @ join '' '' (map (\<lambda>(glyph, width). str_nat glyph @ '' '' @ str_int width) w_entries) @ '']''"






subsection \<open>PDFDocument\<close>

text \<open>
  A dictionary passed to \<^verbatim>\<open>add_object\<close> or \<^verbatim>\<open>add_stream\<close> is a mutable object that the
  caller still holds. The embedding therefore keeps dictionaries in a store (\<open>heap\<close>),
  addressed by their index; \<^verbatim>\<open>dict(d)\<close> allocates a fresh cell holding a copy, and an item
  assignment updates the cell of the dictionary it is applied to. A dictionary is an
  association list in insertion order. \<^verbatim>\<open>zlib.compress\<close> is a parameter \<open>zc\<close>.
\<close>

type_synonym pydict = "(pystr \<times> pystr) list"

record PDFDocument =
  objects :: "string list"
  trailer_extra :: pydict
  heap :: "pydict list"

definition PDFDocument_init :: "pydict list \<Rightarrow> PDFDocument" where
  "PDFDocument_init h = \<lparr> objects = [], trailer_extra = [], heap = h \<rparr>"

definition dict_copy :: "PDFDocument \<Rightarrow> nat \<Rightarrow> nat \<times> PDFDocument" where
  "dict_copy st r = (length (heap st), st\<lparr> heap := heap st @ [heap st ! r] \<rparr>)"

definition dict_setitem :: "PDFDocument \<Rightarrow> nat \<Rightarrow> pystr \<Rightarrow> pystr \<Rightarrow> PDFDocument" where
  "dict_setitem st r k v = st\<lparr> heap := (heap st)[r := dict_set (heap st ! r) k v] \<rparr>"

definition dict_body :: "pydict \<Rightarrow> pystr" where
  "dict_body d =
     join (ustr '' '') ([ustr ''<<''] @ map (\<lambda>(key, val). ustr ''/'' @ key @ ustr '' '' @ val) d
                         @ [ustr ''>>''])"

definition add_object :: "PDFDocument \<Rightarrow> nat \<Rightarrow> (error + nat) \<times> PDFDocument" where
  "add_object st dictionary =
     (case utf8_encode (dict_body (heap st ! dictionary)) of
        Inl err \<Rightarrow> (Inl err, st)
      | Inr obj_bytes \<Rightarrow>
          (Inr (length (objects st) + 1), st\<lparr> objects := objects st @ [obj_bytes] \<rparr>))"

definition add_stream ::
  "(string \<Rightarrow> string) \<Rightarrow> PDFDocument \<Rightarrow> nat \<Rightarrow> string \<Rightarrow> bool \<Rightarrow> (error + nat) \<times> PDFDocument" where
  "add_stream zc st dictionary dat compress =
     (let (dat1, dictionary1, st1) =
            (if compress then
               let (r, s) = dict_copy st dictionary in
               (zc dat, r, dict_setitem s r (ustr ''Filter'') (ustr ''/FlateDecode''))
             else (dat, dictionary, st));
          (dictionary2, st2) = dict_copy st1 dictionary1;
          st3 = dict_setitem st2 dictionary2 (ustr ''Length'') (ustr (str_nat (length dat1)))
      in case utf8_encode (dict_body (heap st3 ! dictionary2)) of
           Inl err \<Rightarrow> (Inl err, st3)
         | Inr header \<Rightarrow>
             (Inr (length (objects st3) + 1),
              st3\<lparr> objects := objects st3 @
                     [join ''\<newline>'' [header, ''stream'', dat1, ''endstream'']] \<rparr>))"

definition set_trailer_entry :: "PDFDocument \<Rightarrow> pystr \<Rightarrow> pystr \<Rightarrow> PDFDocument" where
  "set_trailer_entry st k v = st\<lparr> trailer_extra := dict_set (trailer_extra st) k v \<rparr>"

text \<open>\<^verbatim>\<open>write\<close>: \<open>fh\<close> is the content of the file so far, so \<^verbatim>\<open>fh.tell()\<close> is its length.
  The result is the content of the file when \<^verbatim>\<open>write\<close> returns or raises, and the
  exception if there is one (the trailer is encoded as ASCII after the cross-reference
  section has been written).\<close>

definition pdf_header :: string where
  "pdf_header = ''%PDF-1.6'' @ [CHR 0x0A, CHR ''%'', CHR 0xE2, CHR 0xE3, CHR 0xCF, CHR 0xD3, CHR 0x0A]"

definition obj_marker :: "nat \<Rightarrow> string" where
  "obj_marker index = str_nat index @ '' 0 obj\<newline>''"

fun write_objects :: "string \<Rightarrow> nat list \<Rightarrow> nat \<Rightarrow> string list \<Rightarrow> string \<times> nat list" where
  "write_objects fh offsets index [] = (fh, offsets)"
| "write_objects fh offsets index (obj # rest) =
     write_objects (fh @ obj_marker index @ obj @ ''\<newline>endobj\<newline>'')
       (offsets @ [length fh]) (Suc index) rest"

fun write_xref_entries :: "string \<Rightarrow> nat list \<Rightarrow> string" where
  "write_xref_entries fh [] = fh"
| "write_xref_entries fh (offset # rest) =
     write_xref_entries (fh @ fmt_010d offset @ '' 00000 n \<newline>'') rest"

definition trailer_text :: "PDFDocument \<Rightarrow> int \<Rightarrow> nat \<Rightarrow> pystr" where
  "trailer_text st root_object xref_position =
     (let trailer_parts =
            [ustr ''<<'', ustr (''/Size '' @ str_nat (length (objects st) + 1)),
             ustr (''/Root '' @ str_int root_object @ '' 0 R'')]
            @ map (\<lambda>(key, val). ustr ''/'' @ key @ ustr '' '' @ val) (trailer_extra st)
            @ [ustr ''>>'']
      in join (ustr ''\<newline>'')
           [ustr ''trailer'', join (ustr '' '') trailer_parts, ustr ''startxref'',
            ustr (str_nat xref_position), ustr ''%%EOF''])"

definition write_pdf :: "PDFDocument \<Rightarrow> int \<Rightarrow> string \<times> error option" where
  "write_pdf st root_object =
     (let (fh1, offsets) = write_objects pdf_header [0] 1 (objects st);
          xref_position = length fh1;
          fh2 = fh1 @ ''xref\<newline>0 '' @ str_nat (length (objects st) + 1) @ ''\<newline>'';
          fh3 = fh2 @ ''0000000000 65535 f \<newline>'';
          fh4 = write_xref_entries fh3 (tl offsets)
      in case ascii_encode (trailer_text st root_object xref_position) of
           Inl err \<Rightarrow> (fh4, Some err)
         | Inr b \<Rightarrow> (fh4 @ b, None))"

text \<open>A reader of the cross-reference section, as a PDF consumer finds an object: from
  the position \<open>p\<close> of the section it skips the \<^verbatim>\<open>xref\<close> line, the subsection line and
  the entries of the objects before \<open>i\<close> (object 0 is the free-list head), and reads the
  decimal digits at the start of the entry of object \<open>i\<close>.\<close>

fun skip_lines :: "nat \<Rightarrow> string \<Rightarrow> string" where
  "skip_lines 0 s = s"
| "skip_lines (Suc k) s = skip_lines k (drop 1 (dropWhile (\<lambda>c. c \<noteq> CHR 0x0A) s))"

definition is_digit :: "char \<Rightarrow> bool" where
  "is_digit c = (48 \<le> (of_char c :: nat) \<and> (of_char c :: nat) \<le> 57)"

definition read_decimal :: "string \<Rightarrow> nat" where
  "read_decimal s = foldl (\<lambda>acc c. 10 * acc + (of_char c - 48)) 0 (takeWhile is_digit s)"

definition xref_offset :: "string \<Rightarrow> nat \<Rightarrow> nat \<Rightarrow> nat" where
  "xref_offset out p i = read_decimal (skip_lines (i + 2) (drop p out))"

definition xref_position_of :: "PDFDocument \<Rightarrow> nat" where
  "xref_position_of st = length (fst (write_objects pdf_header [0] 1 (objects st)))"

definition bytes_at :: "string \<Rightarrow> nat \<Rightarrow> string \<Rightarrow> bool" where
  "bytes_at out pos b = (pos + length b \<le> length out \<and> take (length b) (drop pos out) = b)"


text \<open>One entry of the cross-reference section, as \<^verbatim>\<open>write\<close> emits it.\<close>

definition xref_entry :: "nat \<Rightarrow> string" where
  "xref_entry offset = fmt_010d offset @ '' 00000 n \<newline>''"

subsection \<open>A sample font file\<close>

text \<open>A complete font file of 310 bytes, built from big-endian fields: the offset directory
  with six records (of which the header declares \<open>nt\<close>), \<^verbatim>\<open>head\<close> with 1000 units per em, \<^verbatim>\<open>hhea\<close> with two horizontal metrics,
  \<^verbatim>\<open>maxp\<close> with \<open>ng\<close> glyphs, \<^verbatim>\<open>hmtx\<close> with the advance widths 500 and 600, a \<^verbatim>\<open>cmap\<close>
  with one format 4 subtable (platform 3, encoding 1) that has the single segment
  \<open>0x41..0x43\<close> with \<open>idDelta = -64\<close>, and an all-zero \<^verbatim>\<open>OS/2\<close> table. \<open>sample_parsed\<close> is the
  font object that the parser builds from it.\<close>

definition u16be :: "nat \<Rightarrow> string" where
  "u16be v = [char_of (v div 256), char_of v]"

definition u32be :: "nat \<Rightarrow> string" where
  "u32be v = [char_of (v div 16777216), char_of (v div 65536), char_of (v div 256), char_of v]"

definition zeros :: "nat \<Rightarrow> string" where
  "zeros n = replicate n (CHR 0x00)"

definition dir_rec :: "string \<Rightarrow> nat \<Rightarrow> nat \<Rightarrow> string" where
  "dir_rec tag off len = tag @ zeros 4 @ u32be off @ u32be len"

definition sample_cmap4 :: string where
  "sample_cmap4 = u16be 0 @ u16be 1 @ u16be 3 @ u16be 1 @ u32be 12
     @ u16be 4 @ u16be 24 @ u16be 0 @ u16be 2 @ zeros 6
     @ u16be 67 @ zeros 2 @ u16be 65 @ u16be 65472 @ u16be 0"




text \<open>Format 12 subtables: one with the single group \<open>(0x10000, 0x10002, 500)\<close>, and one
  with two groups that both cover the code point \<open>0x41\<close>.\<close>

definition sample_cmap12 :: string where
  "sample_cmap12 = u16be 12 @ u16be 0 @ u32be 28 @ u32be 0 @ u32be 1
     @ u32be 65536 @ u32be 65538 @ u32be 500"

definition overlap_cmap12 :: string where
  "overlap_cmap12 = u16be 12 @ u16be 0 @ u32be 40 @ u32be 0 @ u32be 2
     @ u32be 65 @ u32be 65 @ u32be 5
     @ u32be 65 @ u32be 65 @ u32be 9"

definition font_with :: "nat \<Rightarrow> string \<Rightarrow> nat \<Rightarrow> string" where
  "font_with nt cmap_table ng = u32be 65536 @ u16be nt @ zeros 6
     @ dir_rec ''head'' 108 44 @ dir_rec ''hhea'' 152 36 @ dir_rec ''maxp'' 188 6
     @ dir_rec ''hmtx'' 194 8 @ dir_rec ''cmap'' 202 36 @ dir_rec ''OS/2'' 238 72
     @ (zeros 18 @ u16be 1000 @ zeros 24)
     @ (zeros 34 @ u16be 2)
     @ (zeros 4 @ u16be ng)
     @ (u16be 500 @ zeros 2 @ u16be 600 @ zeros 2)
     @ cmap_table @ zeros 72"

definition sample_font :: "nat \<Rightarrow> string" where
  "sample_font ng = font_with 6 sample_cmap4 ng"

text \<open>Variants of the sample font: \<open>font_with 5 sample_cmap4 ng\<close> declares only the first five
  tables, so it has no \<^verbatim>\<open>OS/2\<close> table; \<open>mac_cmap\<close> is a \<^verbatim>\<open>cmap\<close> table whose only subtable is
  for platform 1; \<open>format6_cmap\<close> is a \<^verbatim>\<open>cmap\<close> table whose platform 3 subtable has format 6.\<close>

definition mac_cmap :: string where
  "mac_cmap = u16be 0 @ u16be 1 @ u16be 1 @ u16be 0 @ u32be 12
     @ u16be 4 @ u16be 24 @ u16be 0 @ u16be 2 @ zeros 6
     @ u16be 67 @ zeros 2 @ u16be 65 @ u16be 65472 @ u16be 0"

definition format6_cmap :: string where
  "format6_cmap = u16be 0 @ u16be 1 @ u16be 3 @ u16be 1 @ u32be 12
     @ u16be 6 @ u16be 24 @ u16be 0 @ u16be 65 @ u16be 3 @ u16be 1 @ u16be 2 @ u16be 3
     @ zeros 8"

definition sample_tables5 :: "string \<rightharpoonup> nat \<times> nat" where
  "sample_tables5 = [''head'' \<mapsto> (108, 44), ''hhea'' \<mapsto> (152, 36), ''maxp'' \<mapsto> (188, 6),
     ''hmtx'' \<mapsto> (194, 8), ''cmap'' \<mapsto> (202, 36)]"

definition sample_tables :: "string \<rightharpoonup> nat \<times> nat" where
  "sample_tables = [''head'' \<mapsto> (108, 44), ''hhea'' \<mapsto> (152, 36), ''maxp'' \<mapsto> (188, 6),
     ''hmtx'' \<mapsto> (194, 8), ''cmap'' \<mapsto> (202, 36), ''OS/2'' \<mapsto> (238, 72)]"

definition sample_parsed :: "nat \<Rightarrow> nat list \<Rightarrow> TrueTypeFont" where
  "sample_parsed ng widths =
     \<lparr> data = sample_font ng, tables = sample_tables, units_per_em = 1000,
       ascender = 0, descender = 0, line_gap = 0, num_h_metrics = 2, num_glyphs = ng,
       advance_widths = widths, cmap = [65 \<mapsto> 1, 66 \<mapsto> 2, 67 \<mapsto> 3],
       s_typo_ascender = 0, s_typo_descender = 0, s_cap_height = 0,
       head_bbox = (0, 0, 0, 0), italic_angle = 0 \<rparr>"


section \<open>Verification\<close>

subsection \<open>Evaluation of the parser on the sample font\<close>

lemma replicate_numeral: "replicate (numeral k) x = x # replicate (pred_numeral k) x"
  by (simp add: numeral_eq_Suc)

lemma upt_0_numeral: "[0..<numeral n] = 0 # [Suc 0..<numeral n]"
  by (simp add: upt_rec [of 0])

lemma upt_Suc0_numeral:
  "[Suc 0..<numeral n] = (if Suc 0 < numeral n then Suc 0 # [2..<numeral n] else [])"
  by (subst upt_rec) (simp add: numeral_2_eq_2)

lemma upt_0_Suc0: "[0..<Suc 0] = [0]"
  by simp

lemmas upt_eval = upt_0_numeral upt_Suc0_numeral upt_0_Suc0

lemmas sample_defs = sample_font_def font_with_def sample_cmap4_def u16be_def u32be_def
  zeros_def dir_rec_def replicate_numeral

lemma sample_offset_table: "parse_offset_table (sample_font ng) = Inr sample_tables"
  by (simp add: sample_defs sample_tables_def parse_offset_table_def parse_offset_record_def
        slice_def upt_eval ebind_def)

lemma sample_head: "parse_head sample_tables (sample_font ng) = Inr (1000, (0, 0, 0, 0))"
  by (simp add: sample_defs sample_tables_def parse_head_def get_table_def slice_def ebind_def
        unpack_u_def unpack_s16s_def to_signed_def upt_eval)

lemma sample_hhea: "parse_hhea sample_tables (sample_font ng) = Inr (0, 0, 0, 2)"
  by (simp add: sample_defs sample_tables_def parse_hhea_def get_table_def slice_def ebind_def
        unpack_u_def unpack_s16s_def to_signed_def upt_eval)

lemma sample_maxp:
  "ng < 256 \<Longrightarrow> parse_maxp sample_tables (sample_font ng) = Inr ng"
  by (simp add: sample_defs sample_tables_def parse_maxp_def get_table_def slice_def ebind_def
        unpack_u_def)

lemma sample_hmtx_table:
  "get_table sample_tables (sample_font ng) ''hmtx'' = Inr (u16be 500 @ zeros 2 @ u16be 600 @ zeros 2)"
  by (simp add: sample_defs sample_tables_def get_table_def slice_def)

lemma sample_hmtx_entries:
  "foldM (hmtx_entry (u16be 500 @ zeros 2 @ u16be 600 @ zeros 2)) ([], 0) [0..<2] = Inr ([500, 600], 8)"
  by (simp add: sample_defs hmtx_entry_def slice_def upt_eval)

lemma sample_hmtx:
  "parse_hmtx sample_tables (sample_font ng) 2 ng
     = Inr (if ng > 2 then [500, 600] @ replicate (ng - 2) 600 else [500, 600])"
  by (simp add: parse_hmtx_def sample_hmtx_table sample_hmtx_entries ebind_def)

lemma sample_segment:
  "fmt4_segment d 214 24 236 [65] [67] [- 64] [0] Map.empty 0 = Inr [65 \<mapsto> 1, 66 \<mapsto> 2, 67 \<mapsto> 3]"
  by (simp add: fmt4_segment_def fmt4_code_def fmt4_glyph_def ebind_def)

lemma sample_cmap_format4:
  "parse_cmap_format4 (sample_font ng) 214 = Inr [65 \<mapsto> 1, 66 \<mapsto> 2, 67 \<mapsto> 3]"
  by (simp add: sample_defs parse_cmap_format4_def fmt4_arrays_def slice_def ebind_def
        unpack_u16s_def unpack_s16s_def to_signed_def upt_eval sample_segment)

lemma sample_cmap:
  "parse_cmap sample_tables (sample_font ng) = Inr [65 \<mapsto> 1, 66 \<mapsto> 2, 67 \<mapsto> 3]"
proof -
  have "parse_cmap sample_tables (sample_font ng) = parse_cmap_format4 (sample_font ng) 214"
    by (simp add: sample_defs sample_tables_def parse_cmap_def slice_def ebind_def unpack_u_def
          upt_eval)
  then show ?thesis by (simp add: sample_cmap_format4)
qed

lemma sample_os2: "parse_os2 sample_tables (sample_font ng) = Inr (0, 0, 0)"
  by (simp add: sample_defs sample_tables_def parse_os2_def get_table_def slice_def ebind_def
        unpack_u_def unpack_s_def to_signed_def)

lemma sample_post: "parse_post sample_tables (sample_font ng) = Inr 0"
  by (simp add: sample_tables_def parse_post_def)

lemma parse_sample_font:
  "ng < 256 \<Longrightarrow> parse (sample_font ng)
     = Inr (sample_parsed ng (if ng > 2 then [500, 600] @ replicate (ng - 2) 600 else [500, 600]))"
  by (simp add: parse_def sample_offset_table sample_head sample_hhea sample_maxp sample_hmtx
        sample_cmap sample_os2 sample_post ebind_def sample_parsed_def)

lemma parse_sample_font_4:
  "parse (sample_font 4) = Inr (sample_parsed 4 [500, 600, 600, 600])"
  using parse_sample_font [of 4] by (simp add: replicate_numeral)

lemma parse_sample_font_1:
  "parse (sample_font 1) = Inr (sample_parsed 1 [500, 600])"
  using parse_sample_font [of 1] by simp


subsection \<open>The registration invariant\<close>











subsection \<open>Width monotonicity\<close>



lemma font_register_char [simp]: "font (register_char e ch) = font e"
  by (simp add: register_char_def Let_def)

lemma font_ensure_text [simp]: "font (ensure_text e t) = font e"
  by (induction t arbitrary: e) simp_all




lemmas encoder_eval = measure_text_def FontEncoder_init_def sample_parsed_def register_char_def
  glyph_for_char_def dict_add_key_def Let_def



lemma sample_measure_BA:
  "fst (measure_text (FontEncoder_init (sample_parsed 4 [500, 600, 600, 600])) [66, 65] sz)
     = Inr (6 / 5 * sz)"
  by (simp add: encoder_eval)



subsection \<open>Advance widths\<close>

lemma take2_slice4: "take 2 (slice t pos (pos + 4)) = slice t pos (pos + 2)"
  by (simp add: slice_def min_def)

lemma hmtx_entries:
  "foldM (hmtx_entry table) (ws, pos) is = Inr (ws', pos') \<Longrightarrow>
     length ws' = length ws + length is
     \<and> (\<forall>k < length ws. ws' ! k = ws ! k)
     \<and> (\<forall>k < length is. ws' ! (length ws + k) = be_nat (slice table (pos + 4 * k) (pos + 4 * k + 2)))"
proof (induction "is" arbitrary: ws pos)
  case Nil
  then show ?case by simp
next
  case (Cons i "is")
  from Cons.prems have ok: "length (slice table pos (pos + 4)) = 4"
    by (auto simp: hmtx_entry_def Let_def split: if_splits)
  then have step: "hmtx_entry table (ws, pos) i
      = Inr (ws @ [be_nat (slice table pos (pos + 2))], pos + 4)"
    by (simp add: hmtx_entry_def take2_slice4)
  with Cons.prems have rest:
    "foldM (hmtx_entry table) (ws @ [be_nat (slice table pos (pos + 2))], pos + 4) is = Inr (ws', pos')"
    by simp
  note ih = Cons.IH [OF rest]
  have len: "length ws' = length ws + length (i # is)" using ih by simp
  have old: "\<forall>k < length ws. ws' ! k = ws ! k"
    using ih by (auto simp: nth_append)
  have new: "\<forall>k < length (i # is).
      ws' ! (length ws + k) = be_nat (slice table (pos + 4 * k) (pos + 4 * k + 2))"
  proof (intro allI impI)
    fix k assume k: "k < length (i # is)"
    show "ws' ! (length ws + k) = be_nat (slice table (pos + 4 * k) (pos + 4 * k + 2))"
    proof (cases k)
      case 0
      have "ws' ! length ws = (ws @ [be_nat (slice table pos (pos + 2))]) ! length ws"
        using ih by auto
      then show ?thesis using 0 by simp
    next
      case (Suc j)
      with k have "j < length is" by simp
      with ih have "ws' ! (length (ws @ [be_nat (slice table pos (pos + 2))]) + j)
          = be_nat (slice table (pos + 4 + 4 * j) (pos + 4 + 4 * j + 2))" by blast
      then show ?thesis using Suc by (simp add: add.assoc add.commute add.left_commute)
    qed
  qed
  from len old new show ?case by blast
qed

lemma parse_hmtx_result:
  assumes "parse_hmtx tabs d nhm ng = Inr ws"
  shows "length ws = max ng nhm
    \<and> (\<exists>table. get_table tabs d ''hmtx'' = Inr table
          \<and> (\<forall>i < nhm. ws ! i = be_nat (slice table (4 * i) (4 * i + 2))))
    \<and> (\<forall>i. nhm \<le> i \<and> i < ng \<longrightarrow> 0 < nhm \<and> ws ! i = ws ! (nhm - 1))"
proof -
  from assms obtain table where t: "get_table tabs d ''hmtx'' = Inr table"
    by (cases "get_table tabs d ''hmtx''") (auto simp: parse_hmtx_def ebind_def)
  from assms t obtain ws0 pos where f: "foldM (hmtx_entry table) ([], 0) [0..<nhm] = Inr (ws0, pos)"
    by (cases "foldM (hmtx_entry table) ([], 0) [0..<nhm]") (auto simp: parse_hmtx_def ebind_def)
  from hmtx_entries [OF f] have l0: "length ws0 = nhm"
    and e0: "\<forall>k < nhm. ws0 ! k = be_nat (slice table (4 * k) (4 * k + 2))" by auto
  show ?thesis
  proof (cases "ng > nhm")
    case True
    with assms t f have ne: "ws0 \<noteq> []" and ws: "ws = ws0 @ replicate (ng - nhm) (last ws0)"
      by (auto simp: parse_hmtx_def ebind_def Let_def split: if_splits)
    from ne l0 have pos: "0 < nhm" by auto
    have last: "last ws0 = ws0 ! (nhm - 1)" using ne l0 by (simp add: last_conv_nth)
    have "length ws = max ng nhm" using ws l0 True by simp
    moreover have "\<forall>i < nhm. ws ! i = be_nat (slice table (4 * i) (4 * i + 2))"
      using ws l0 e0 by (simp add: nth_append)
    moreover have "\<forall>i. nhm \<le> i \<and> i < ng \<longrightarrow> 0 < nhm \<and> ws ! i = ws ! (nhm - 1)"
      using ws l0 pos last by (auto simp: nth_append)
    ultimately show ?thesis using t by blast
  next
    case False
    with assms t f have ws: "ws = ws0"
      by (auto simp: parse_hmtx_def ebind_def Let_def split: if_splits)
    with l0 e0 False t show ?thesis by auto
  qed
qed

lemma parse_fields:
  assumes "parse d = Inr f"
  shows "data f = d"
    and "parse_offset_table d = Inr (tables f)"
    and "parse_hmtx (tables f) d (num_h_metrics f) (num_glyphs f) = Inr (advance_widths f)"
    and "parse_cmap (tables f) d = Inr (cmap f)"
    and "\<exists>a b c. parse_hhea (tables f) d = Inr (a, b, c, num_h_metrics f)"
    and "parse_maxp (tables f) d = Inr (num_glyphs f)"
  using assms
  by (auto simp: parse_def ebind_def split: sum.splits prod.splits)

text \<open>
  Claim C5, as amended. For every successfully parsed font the advance widths have length
  \<open>max numGlyphs numHMetrics\<close> (so exactly \<open>numGlyphs\<close> unless the font declares more
  horizontal metrics than glyphs); the first \<open>numHMetrics\<close> entries are the explicit advance
  widths of the \<^verbatim>\<open>hmtx\<close> table; and when \<open>numGlyphs > numHMetrics\<close> every remaining entry
  equals the last explicit advance width.
\<close>

theorem advance_widths_length:
  assumes "parse d = Inr f"
  shows "length (advance_widths f) = max (num_glyphs f) (num_h_metrics f)
    \<and> (\<exists>table. get_table (tables f) (data f) ''hmtx'' = Inr table
          \<and> (\<forall>i < num_h_metrics f. advance_widths f ! i = be_nat (slice table (4 * i) (4 * i + 2))))
    \<and> (\<forall>i. num_h_metrics f \<le> i \<and> i < num_glyphs f \<longrightarrow>
          0 < num_h_metrics f \<and> advance_widths f ! i = advance_widths f ! (num_h_metrics f - 1))"
  using parse_hmtx_result [OF parse_fields(3) [OF assms]] parse_fields(1) [OF assms] by simp

theorem advance_widths_length_witness:
  "parse (sample_font 4) = Inr (sample_parsed 4 [500, 600, 600, 600])
   \<and> length [500, 600, 600, 600 :: nat] = max 4 2
   \<and> [500, 600, 600, 600 :: nat] ! 2 = [500, 600, 600, 600] ! (2 - 1)
   \<and> [500, 600, 600, 600 :: nat] ! 3 = [500, 600, 600, 600] ! (2 - 1)"
  using advance_widths_length [OF parse_sample_font_4] parse_sample_font_4
  by (simp add: sample_parsed_def)

text \<open>
  Claim C5 as stated fails for a font that declares two horizontal metrics and one glyph:
  it parses, and its advance widths have length two.
\<close>

theorem advance_widths_length_counterexample:
  "parse (sample_font 1) = Inr (sample_parsed 1 [500, 600])
   \<and> num_glyphs (sample_parsed 1 [500, 600]) = 1
   \<and> length (advance_widths (sample_parsed 1 [500, 600])) = 2"
  using parse_sample_font_1 by (simp add: sample_parsed_def)


subsection \<open>Frame properties of the object writer\<close>

lemma list_update_snoc: "(xs @ [x])[length xs := y] = xs @ [y]"
  by simp

lemma add_stream_unfold:
  "add_stream zc st d dat c =
     (let dat1 = (if c then zc dat else dat);
          d1 = (if c then dict_set (heap st ! d) (ustr ''Filter'') (ustr ''/FlateDecode'')
                else heap st ! d);
          d2 = dict_set d1 (ustr ''Length'') (ustr (str_nat (length dat1)));
          st3 = st\<lparr> heap := heap st @ (if c then [d1] else []) @ [d2] \<rparr>
      in case utf8_encode (dict_body d2) of
           Inl err \<Rightarrow> (Inl err, st3)
         | Inr header \<Rightarrow>
             (Inr (length (objects st) + 1),
              st3\<lparr> objects := objects st @
                     [join ''\<newline>'' [header, ''stream'', dat1, ''endstream'']] \<rparr>))"
proof (cases c)
  case True
  then show ?thesis
    by (simp add: add_stream_def dict_copy_def dict_setitem_def Let_def nth_append
          list_update_append split: sum.splits)
next
  case False
  then show ?thesis
    by (simp add: add_stream_def dict_copy_def dict_setitem_def Let_def nth_append
          list_update_append split: sum.splits)
qed

lemma add_stream_heap:
  "\<exists>extra. heap (snd (add_stream zc st d dat c)) = heap st @ extra"
  by (simp add: add_stream_unfold Let_def split: sum.splits)

lemma add_stream_objects:
  "objects (snd (add_stream zc st d dat c)) =
     objects st @ (case fst (add_stream zc st d dat c) of Inl err \<Rightarrow> []
                   | Inr n \<Rightarrow> [last (objects (snd (add_stream zc st d dat c)))])"
  by (simp add: add_stream_unfold Let_def split: sum.splits)

lemma add_stream_id:
  "fst (add_stream zc st d dat c) = Inr n \<Longrightarrow> n = length (objects st) + 1"
  by (auto simp add: add_stream_unfold Let_def split: sum.splits)

lemma add_object_objects:
  "objects (snd (add_object st d)) =
     objects st @ (case fst (add_object st d) of Inl err \<Rightarrow> []
                   | Inr n \<Rightarrow> [last (objects (snd (add_object st d)))])"
  by (simp add: add_object_def split: sum.splits)

lemma add_object_id:
  "fst (add_object st d) = Inr n \<Longrightarrow> n = length (objects st) + 1"
  by (auto simp add: add_object_def split: sum.splits)

lemma add_object_heap: "heap (snd (add_object st d)) = heap st"
  by (simp add: add_object_def split: sum.splits)

text \<open>
  Claim C10. For every live dictionary, payload and compression flag, \<^verbatim>\<open>add_stream\<close> leaves
  the caller's dictionary (and every other dictionary that existed before the call)
  unchanged: \<^verbatim>\<open>Filter\<close> and \<^verbatim>\<open>Length\<close> are set on fresh copies only. Both \<^verbatim>\<open>add_stream\<close> and
  \<^verbatim>\<open>add_object\<close> only append to the object list, so the bytes and the position (the id) of
  every object inserted before are unchanged, and the id returned is the new length of the
  list.
\<close>

theorem add_stream_frame:
  assumes "dictionary < length (heap st)"
  shows "heap (snd (add_stream zc st dictionary dat compress)) ! dictionary = heap st ! dictionary
    \<and> (\<forall>r < length (heap st). heap (snd (add_stream zc st dictionary dat compress)) ! r = heap st ! r)
    \<and> prefix (objects st) (objects (snd (add_stream zc st dictionary dat compress)))
    \<and> (\<forall>n. fst (add_stream zc st dictionary dat compress) = Inr n \<longrightarrow>
          n = length (objects st) + 1
          \<and> length (objects (snd (add_stream zc st dictionary dat compress))) = n)
    \<and> heap (snd (add_object st dictionary)) = heap st
    \<and> prefix (objects st) (objects (snd (add_object st dictionary)))
    \<and> (\<forall>n. fst (add_object st dictionary) = Inr n \<longrightarrow>
          n = length (objects st) + 1 \<and> length (objects (snd (add_object st dictionary))) = n)"
proof -
  obtain extra where h: "heap (snd (add_stream zc st dictionary dat compress)) = heap st @ extra"
    using add_stream_heap by blast
  have a: "\<forall>r < length (heap st). heap (snd (add_stream zc st dictionary dat compress)) ! r = heap st ! r"
    by (simp add: h nth_append)
  have b: "prefix (objects st) (objects (snd (add_stream zc st dictionary dat compress)))"
    by (subst add_stream_objects) simp
  have c: "\<forall>n. fst (add_stream zc st dictionary dat compress) = Inr n \<longrightarrow>
          n = length (objects st) + 1
          \<and> length (objects (snd (add_stream zc st dictionary dat compress))) = n"
  proof (intro allI impI)
    fix n assume n: "fst (add_stream zc st dictionary dat compress) = Inr n"
    have "length (objects (snd (add_stream zc st dictionary dat compress))) = length (objects st) + 1"
      by (subst add_stream_objects) (simp add: n)
    with add_stream_id [OF n]
    show "n = length (objects st) + 1
          \<and> length (objects (snd (add_stream zc st dictionary dat compress))) = n" by simp
  qed
  have d: "prefix (objects st) (objects (snd (add_object st dictionary)))"
    by (subst add_object_objects) simp
  have e: "\<forall>n. fst (add_object st dictionary) = Inr n \<longrightarrow>
          n = length (objects st) + 1 \<and> length (objects (snd (add_object st dictionary))) = n"
  proof (intro allI impI)
    fix n assume n: "fst (add_object st dictionary) = Inr n"
    have "length (objects (snd (add_object st dictionary))) = length (objects st) + 1"
      by (subst add_object_objects) (simp add: n)
    with add_object_id [OF n]
    show "n = length (objects st) + 1 \<and> length (objects (snd (add_object st dictionary))) = n"
      by simp
  qed
  from a assms b c d e add_object_heap show ?thesis by blast
qed


lemma utf8_encode_ascii: "\<forall>c \<in> set s. c < 128 \<Longrightarrow> utf8_encode s = Inr (map char_of s)"
  by (induction s) (simp_all add: utf8_char_def)

lemma str_nat_3: "str_nat (Suc (Suc (Suc 0))) = [digit_char 3]"
  by (subst str_nat.simps) (simp add: numeral_3_eq_3)

lemma add_stream_returns:
  "utf8_encode (dict_body (dict_set
       (if c then dict_set (heap st ! d) (ustr ''Filter'') (ustr ''/FlateDecode'') else heap st ! d)
       (ustr ''Length'') (ustr (str_nat (length (if c then zc dat else dat)))))) = Inr h
   \<Longrightarrow> fst (add_stream zc st d dat c) = Inr (length (objects st) + 1)"
  by (simp add: add_stream_unfold Let_def)

lemma add_object_returns:
  "utf8_encode (dict_body (heap st ! d)) = Inr h
   \<Longrightarrow> fst (add_object st d) = Inr (length (objects st) + 1)"
  by (simp add: add_object_def)

lemma sample_add_stream: "fst (add_stream (\<lambda>b. b) (PDFDocument_init [[(ustr ''Length1'', ustr ''3'')]]) 0 ''abc'' True) = Inr 1"
proof -
  let ?st = "PDFDocument_init [[(ustr ''Length1'', ustr ''3'')]]"
  have "\<forall>c \<in> set (dict_body (dict_set
       (if True then dict_set (heap ?st ! 0) (ustr ''Filter'') (ustr ''/FlateDecode'') else heap ?st ! 0)
       (ustr ''Length'') (ustr (str_nat (length (if True then (\<lambda>b. b) ''abc'' else ''abc'')))))). c < 128"
    by (simp add: PDFDocument_init_def dict_body_def ustr_def str_nat_3 digit_char_def)
  from add_stream_returns [of True ?st 0 "\<lambda>b. b" "''abc''", OF utf8_encode_ascii [OF this]]
  show ?thesis by (simp add: PDFDocument_init_def)
qed

lemma sample_add_object: "fst (add_object (PDFDocument_init [[(ustr ''Length1'', ustr ''3'')]]) 0) = Inr 1"
proof -
  let ?st = "PDFDocument_init [[(ustr ''Length1'', ustr ''3'')]]"
  have "\<forall>c \<in> set (dict_body (heap ?st ! 0)). c < 128"
    by (simp add: PDFDocument_init_def dict_body_def ustr_def)
  from add_object_returns [of ?st 0, OF utf8_encode_ascii [OF this]]
  show ?thesis by (simp add: PDFDocument_init_def)
qed
theorem add_stream_frame_witness:
  "(0 :: nat) < length (heap (PDFDocument_init [[(ustr ''Length1'', ustr ''3'')]]))
   \<and> heap (snd (add_stream (\<lambda>b. b) (PDFDocument_init [[(ustr ''Length1'', ustr ''3'')]]) 0 ''abc'' True)) ! 0
       = [(ustr ''Length1'', ustr ''3'')]
   \<and> fst (add_stream (\<lambda>b. b) (PDFDocument_init [[(ustr ''Length1'', ustr ''3'')]]) 0 ''abc'' True) = Inr 1
   \<and> length (objects (snd (add_stream (\<lambda>b. b) (PDFDocument_init [[(ustr ''Length1'', ustr ''3'')]]) 0 ''abc'' True))) = 1
   \<and> fst (add_object (PDFDocument_init [[(ustr ''Length1'', ustr ''3'')]]) 0) = Inr 1
   \<and> length (objects (snd (add_object (PDFDocument_init [[(ustr ''Length1'', ustr ''3'')]]) 0))) = 1"
proof -
  let ?st = "PDFDocument_init [[(ustr ''Length1'', ustr ''3'')]]"
  have h: "(0 :: nat) < length (heap ?st)" by (simp add: PDFDocument_init_def)
  note T = add_stream_frame [OF h, of "\<lambda>b. b" "''abc''" True]
  have hp: "heap ?st ! 0 = [(ustr ''Length1'', ustr ''3'')]" by (simp add: PDFDocument_init_def)
  have B: "heap (snd (add_stream (\<lambda>b. b) ?st 0 ''abc'' True)) ! 0 = [(ustr ''Length1'', ustr ''3'')]"
    using T [THEN conjunct1] hp by (rule trans)
  have D: "length (objects (snd (add_stream (\<lambda>b. b) ?st 0 ''abc'' True))) = 1"
    using T [THEN conjunct2, THEN conjunct2, THEN conjunct2, THEN conjunct1, rule_format,
        OF sample_add_stream] by (rule conjunct2)
  have F: "length (objects (snd (add_object ?st 0))) = 1"
    using T [THEN conjunct2, THEN conjunct2, THEN conjunct2, THEN conjunct2, THEN conjunct2,
        THEN conjunct2, rule_format, OF sample_add_object] by (rule conjunct2)
  from h B sample_add_stream D sample_add_object F show ?thesis by (intro conjI)
qed

subsection \<open>Offsets of the cross-reference section\<close>

lemma bytes_at_append: "bytes_at out pos b \<Longrightarrow> bytes_at (out @ x) pos b"
  by (auto simp: bytes_at_def)

lemma bytes_at_here: "bytes_at (fh @ b @ x) (length fh) b"
  by (simp add: bytes_at_def)

lemma write_objects_spec:
  "write_objects fh offs idx objs = (fh', offs') \<Longrightarrow>
     \<exists>body news. fh' = fh @ body \<and> offs' = offs @ news \<and> length news = length objs
       \<and> (\<forall>k < length objs. bytes_at fh' (news ! k) (obj_marker (idx + k)))"
proof (induction objs arbitrary: fh offs idx)
  case Nil
  then show ?case by simp
next
  case (Cons obj rest)
  let ?fh = "fh @ obj_marker idx @ obj @ ''\<newline>endobj\<newline>''"
  from Cons.prems have "write_objects ?fh (offs @ [length fh]) (Suc idx) rest = (fh', offs')"
    by simp
  from Cons.IH [OF this] obtain body news where
    b: "fh' = ?fh @ body" and n: "offs' = (offs @ [length fh]) @ news"
    and l: "length news = length rest"
    and m: "\<forall>k < length rest. bytes_at fh' (news ! k) (obj_marker (Suc idx + k))"
    by blast
  have first: "bytes_at fh' (length fh) (obj_marker idx)"
    unfolding b using bytes_at_here [of fh "obj_marker idx" "obj @ ''\<newline>endobj\<newline>'' @ body"]
    by simp
  have "\<forall>k < length (obj # rest). bytes_at fh' ((length fh # news) ! k) (obj_marker (idx + k))"
  proof (intro allI impI)
    fix k assume "k < length (obj # rest)"
    then show "bytes_at fh' ((length fh # news) ! k) (obj_marker (idx + k))"
      using first m by (cases k) auto
  qed
  moreover have "fh' = fh @ (obj_marker idx @ obj @ ''\<newline>endobj\<newline>'' @ body)"
    using b by simp
  moreover have "offs' = offs @ (length fh # news)" using n by simp
  moreover have "length (length fh # news) = length (obj # rest)" using l by simp
  ultimately show ?case by blast
qed

lemma write_xref_entries_eq:
  "write_xref_entries fh offs = fh @ concat (map xref_entry offs)"
  by (induction offs arbitrary: fh) (simp_all add: xref_entry_def)

lemma of_char_digit_char: "k < 10 \<Longrightarrow> of_char (digit_char k) = 48 + k"
  by (simp add: digit_char_def)

lemma is_digit_digit_char: "k < 10 \<Longrightarrow> is_digit (digit_char k)"
  by (simp add: is_digit_def of_char_digit_char)

lemma str_nat_digits: "\<forall>c \<in> set (str_nat n). is_digit c"
proof (induction n rule: str_nat.induct)
  case (1 n)
  show ?case
  proof (cases "n < 10")
    case True
    then show ?thesis by (subst str_nat.simps) (simp add: is_digit_digit_char)
  next
    case False
    with 1 show ?thesis by (subst str_nat.simps) (simp add: is_digit_digit_char)
  qed
qed

lemma decimal_str_nat:
  "foldl (\<lambda>acc c. 10 * acc + (of_char c - 48)) 0 (str_nat n) = n"
proof (induction n rule: str_nat.induct)
  case (1 n)
  show ?case
  proof (cases "n < 10")
    case True
    then show ?thesis by (subst str_nat.simps) (simp add: of_char_digit_char)
  next
    case False
    with 1 show ?thesis by (subst str_nat.simps) (simp add: of_char_digit_char)
  qed
qed

lemma decimal_zeros:
  "foldl (\<lambda>acc c. 10 * acc + (of_char c - 48)) 0 (replicate k CHR ''0'' @ s)
     = foldl (\<lambda>acc c. 10 * acc + (of_char c - 48)) (0 :: nat) s"
  by (induction k) simp_all

lemma fmt_010d_digits: "\<forall>c \<in> set (fmt_010d n). is_digit c"
  using str_nat_digits [of n] by (auto simp: fmt_010d_def is_digit_def)

lemma read_decimal_fmt_010d:
  "\<not> is_digit c \<Longrightarrow> read_decimal (fmt_010d n @ c # rest) = n"
proof -
  assume c: "\<not> is_digit c"
  have "takeWhile is_digit (fmt_010d n @ c # rest) = fmt_010d n"
    by (subst takeWhile_append2) (use fmt_010d_digits [of n] c in auto)
  moreover have "foldl (\<lambda>acc c. 10 * acc + (of_char c - 48)) 0 (fmt_010d n) = n"
    unfolding fmt_010d_def decimal_zeros by (rule decimal_str_nat)
  ultimately show ?thesis
    by (simp add: read_decimal_def)
qed

lemma read_decimal_xref_entry: "read_decimal (xref_entry n @ rest) = n"
  using read_decimal_fmt_010d [of "CHR '' ''" n "''00000 n \<newline>'' @ rest"]
  by (simp add: xref_entry_def is_digit_def)

lemma no_newline_digits: "\<forall>c \<in> set s. is_digit c \<Longrightarrow> CHR 0x0A \<notin> set s"
  by (auto simp: is_digit_def)

lemma skip_line:
  "CHR 0x0A \<notin> set l \<Longrightarrow> skip_lines (Suc k) (l @ CHR 0x0A # rest) = skip_lines k rest"
proof -
  assume l: "CHR 0x0A \<notin> set l"
  have "dropWhile (\<lambda>c. c \<noteq> CHR 0x0A) (l @ CHR 0x0A # rest) = CHR 0x0A # rest"
    by (subst dropWhile_append2) (use l in auto)
  then show ?thesis by simp
qed

lemma skip_xref_entry: "skip_lines (Suc k) (xref_entry n @ rest) = skip_lines k rest"
proof -
  have "CHR 0x0A \<notin> set (fmt_010d n @ '' 00000 n '')"
    using no_newline_digits [OF fmt_010d_digits [of n]] by simp
  from skip_line [OF this, of k rest] show ?thesis by (simp add: xref_entry_def)
qed

lemma skip_xref_entries:
  "k \<le> length offs \<Longrightarrow>
     skip_lines k (concat (map xref_entry offs) @ rest) = concat (map xref_entry (drop k offs)) @ rest"
proof (induction k arbitrary: offs)
  case 0
  then show ?case by simp
next
  case (Suc k)
  then obtain off offs' where o: "offs = off # offs'" by (cases offs) auto
  with Suc show ?case by (simp add: skip_xref_entry del: skip_lines.simps)
qed

lemma xref_offset_section:
  assumes "j < length news"
  shows "xref_offset
           (fh1 @ ''xref\<newline>0 '' @ str_nat n @ ''\<newline>'' @ ''0000000000 65535 f \<newline>''
              @ concat (map xref_entry news) @ tb) (length fh1) (Suc j) = news ! j"
proof -
  let ?entries = "concat (map xref_entry news) @ tb"
  have nl1: "CHR 0x0A \<notin> set ''xref''" by simp
  have nl2: "CHR 0x0A \<notin> set (''0 '' @ str_nat n)"
    using no_newline_digits [OF str_nat_digits [of n]] by simp
  have nl3: "CHR 0x0A \<notin> set ''0000000000 65535 f ''" by simp
  have "skip_lines (Suc j + 2)
          (''xref'' @ CHR 0x0A # (''0 '' @ str_nat n) @ CHR 0x0A # ''0000000000 65535 f '' @ CHR 0x0A # ?entries)
        = skip_lines j ?entries"
    using skip_line [OF nl1] skip_line [OF nl2] skip_line [OF nl3]
    by (simp add: numeral_2_eq_2 del: skip_lines.simps)
  also have "\<dots> = concat (map xref_entry (drop j news)) @ tb"
    using assms by (simp add: skip_xref_entries)
  also have "\<dots> = xref_entry (news ! j) @ (concat (map xref_entry (drop (Suc j) news)) @ tb)"
    using assms by (simp add: Cons_nth_drop_Suc [symmetric])
  finally show ?thesis
    by (simp add: xref_offset_def read_decimal_xref_entry)
qed

lemma write_pdf_unfold:
  assumes "write_objects pdf_header [0] 1 (objects st) = (fh1, offsets)"
  shows "\<exists>tb. fst (write_pdf st root_object) =
     fh1 @ ''xref\<newline>0 '' @ str_nat (length (objects st) + 1) @ ''\<newline>''
       @ ''0000000000 65535 f \<newline>'' @ concat (map xref_entry (tl offsets)) @ tb"
  using assms
  by (cases "ascii_encode (trailer_text st root_object (length fh1))")
     (simp_all add: write_pdf_def write_xref_entries_eq)

text \<open>
  Claim C1. For every document and every object id \<open>i\<close> from 1 to the object count, the
  offset that the cross-reference section of the written file records for \<open>i\<close> (read back
  from the file by \<open>xref_offset\<close>) is a position of the file at which the header line
  \<^verbatim>\<open>"<i> 0 obj"\<close> of that object stands; the section itself starts at the position that
  \<^verbatim>\<open>write\<close> calls \<^verbatim>\<open>xref_position\<close>. This holds also when the trailer cannot be encoded.
\<close>

theorem xref_offsets_exact:
  assumes "1 \<le> i" and "i \<le> length (objects st)"
  shows "bytes_at (fst (write_pdf st root_object))
           (xref_offset (fst (write_pdf st root_object)) (xref_position_of st) i) (obj_marker i)
    \<and> bytes_at (fst (write_pdf st root_object)) (xref_position_of st) ''xref\<newline>''"
proof -
  obtain fh1 offsets where w: "write_objects pdf_header [0] 1 (objects st) = (fh1, offsets)"
    by (cases "write_objects pdf_header [0] 1 (objects st)")
  from write_objects_spec [OF w] obtain body news where
    o: "offsets = [0] @ news" and l: "length news = length (objects st)"
    and m: "\<forall>k < length (objects st). bytes_at fh1 (news ! k) (obj_marker (1 + k))"
    by blast
  from write_pdf_unfold [OF w] obtain tb where
    out: "fst (write_pdf st root_object) =
      fh1 @ ''xref\<newline>0 '' @ str_nat (length (objects st) + 1) @ ''\<newline>''
        @ ''0000000000 65535 f \<newline>'' @ concat (map xref_entry news) @ tb"
    using o by auto
  have p: "xref_position_of st = length fh1"
    using w by (simp add: xref_position_of_def)
  from assms obtain j where j: "i = Suc j" "j < length news"
    using l by (cases i) auto
  have off: "xref_offset (fst (write_pdf st root_object)) (xref_position_of st) i = news ! j"
    unfolding out p j(1) by (rule xref_offset_section [OF j(2)])
  have "bytes_at fh1 (news ! j) (obj_marker i)"
    using m j l by simp
  then have a: "bytes_at (fst (write_pdf st root_object)) (news ! j) (obj_marker i)"
    unfolding out by (rule bytes_at_append)
  have b: "bytes_at (fst (write_pdf st root_object)) (xref_position_of st) ''xref\<newline>''"
    unfolding out p
    using bytes_at_here [of fh1 "''xref\<newline>''"] by simp
  from a b off show ?thesis by simp
qed

lemma str_nat_small: "n < 10 \<Longrightarrow> str_nat n = [digit_char n]"
  by (subst str_nat.simps) simp


theorem xref_offsets_exact_witness:
  "(1 :: nat) \<le> 1
   \<and> 1 \<le> length (objects \<lparr> objects = [''<< /Type /Catalog >>''], trailer_extra = [], heap = [] \<rparr>)
   \<and> bytes_at (fst (write_pdf \<lparr> objects = [''<< /Type /Catalog >>''], trailer_extra = [], heap = [] \<rparr> 1))
        (xref_offset (fst (write_pdf \<lparr> objects = [''<< /Type /Catalog >>''], trailer_extra = [], heap = [] \<rparr> 1))
           (xref_position_of \<lparr> objects = [''<< /Type /Catalog >>''], trailer_extra = [], heap = [] \<rparr>) 1)
        (obj_marker 1)
   \<and> xref_position_of \<lparr> objects = [''<< /Type /Catalog >>''], trailer_extra = [], heap = [] \<rparr> = 51"
proof -
  let ?st = "\<lparr> objects = [''<< /Type /Catalog >>''], trailer_extra = [], heap = [] \<rparr>"
  have h1: "(1 :: nat) \<le> 1" by simp
  have h2: "1 \<le> length (objects ?st)" by simp
  have p: "xref_position_of ?st = 51"
    by (simp add: xref_position_of_def pdf_header_def obj_marker_def str_nat_small)
  from xref_offsets_exact [OF h1 h2, of 1] p h2 show ?thesis by simp
qed

subsection \<open>Default width and the sparse width table\<close>
















subsection \<open>cmap format 4\<close>



















subsection \<open>cmap format 12\<close>

lemma slice_slice: "b \<le> j - i \<Longrightarrow> slice (slice xs i j) a b = slice xs (i + a) (i + b)"
  by (simp add: slice_def drop_take min_def add.commute)

lemma fmt12_codes_fold:
  "foldM (fmt12_code sc sg) m codes
     = Inr (\<lambda>c. if c \<in> set codes then Some (sg + (c - sc)) else m c)"
  by (induction codes arbitrary: m) (auto simp: fmt12_code_def fun_eq_iff)

lemma fmt12_group_step:
  assumes "fmt12_group d (m, pos) i = Inr (m1, pos1)"
  shows "pos1 = pos + 12 \<and> m1 = (\<lambda>c. if covers12 d pos c then Some (glyph12 d pos c) else m c)"
proof -
  let ?r = "slice d pos (pos + 12)"
  from assms have l: "length ?r = 12"
    by (auto simp: fmt12_group_def Let_def split: if_splits)
  have sc: "be_nat (slice ?r 0 4) = be_nat (slice d pos (pos + 4))"
    and ec: "be_nat (slice ?r 4 8) = be_nat (slice d (pos + 4) (pos + 8))"
    and sg: "be_nat (slice ?r 8 12) = be_nat (slice d (pos + 8) (pos + 12))"
    by (simp_all add: slice_slice)
  from assms l have "pos1 = pos + 12"
    and "m1 = (\<lambda>c. if c \<in> set [be_nat (slice d pos (pos + 4))..<be_nat (slice d (pos + 4) (pos + 8)) + 1]
                   then Some (be_nat (slice d (pos + 8) (pos + 12)) + (c - be_nat (slice d pos (pos + 4))))
                   else m c)"
    by (simp_all add: fmt12_group_def Let_def fmt12_codes_fold ebind_def sc ec sg)
  then show ?thesis
    by (auto simp: covers12_def glyph12_def fun_eq_iff)
qed

lemma fmt12_groups_fold:
  "foldM (fmt12_group d) (m, pos) is = Inr (m', pos') \<Longrightarrow>
     (\<forall>k < length is. covers12 d (pos + 12 * k) c
          \<and> (\<forall>j. k < j \<and> j < length is \<longrightarrow> \<not> covers12 d (pos + 12 * j) c)
        \<longrightarrow> m' c = Some (glyph12 d (pos + 12 * k) c))
     \<and> ((\<forall>k < length is. \<not> covers12 d (pos + 12 * k) c) \<longrightarrow> m' c = m c)"
proof (induction "is" arbitrary: m pos)
  case Nil
  then show ?case by simp
next
  case (Cons i "is")
  from Cons.prems obtain m1 pos1 where s: "fmt12_group d (m, pos) i = Inr (m1, pos1)"
    and r: "foldM (fmt12_group d) (m1, pos1) is = Inr (m', pos')"
    by (cases "fmt12_group d (m, pos) i") auto
  from fmt12_group_step [OF s] have p1: "pos1 = pos + 12"
    and m1: "m1 = (\<lambda>c. if covers12 d pos c then Some (glyph12 d pos c) else m c)" by auto
  note ih = Cons.IH [OF r [unfolded p1]]
  have shift: "\<And>k. pos + 12 + 12 * k = pos + 12 * Suc k" by simp
  have none: "(\<forall>k < length (i # is). \<not> covers12 d (pos + 12 * k) c) \<longrightarrow> m' c = m c"
  proof
    assume a: "\<forall>k < length (i # is). \<not> covers12 d (pos + 12 * k) c"
    then have "\<forall>k < length is. \<not> covers12 d (pos + 12 + 12 * k) c"
      unfolding shift by auto
    with ih have "m' c = m1 c" by blast
    moreover from a have "\<not> covers12 d pos c" by force
    ultimately show "m' c = m c" by (simp add: m1)
  qed
  have some: "\<forall>k < length (i # is). covers12 d (pos + 12 * k) c
          \<and> (\<forall>j. k < j \<and> j < length (i # is) \<longrightarrow> \<not> covers12 d (pos + 12 * j) c)
        \<longrightarrow> m' c = Some (glyph12 d (pos + 12 * k) c)"
  proof (intro allI impI)
    fix k assume k: "k < length (i # is)"
      and c: "covers12 d (pos + 12 * k) c
          \<and> (\<forall>j. k < j \<and> j < length (i # is) \<longrightarrow> \<not> covers12 d (pos + 12 * j) c)"
    show "m' c = Some (glyph12 d (pos + 12 * k) c)"
    proof (cases k)
      case 0
      have "\<forall>k' < length is. \<not> covers12 d (pos + 12 + 12 * k') c"
      proof (intro allI impI)
        fix k' assume "k' < length is"
        with c 0 have "\<not> covers12 d (pos + 12 * Suc k') c" by auto
        then show "\<not> covers12 d (pos + 12 + 12 * k') c" unfolding shift .
      qed
      with ih have "m' c = m1 c" by blast
      with c 0 show ?thesis by (simp add: m1)
    next
      case (Suc k')
      with k have k': "k' < length is" by simp
      have "covers12 d (pos + 12 + 12 * k') c" using c Suc unfolding shift by simp
      moreover have "\<forall>j. k' < j \<and> j < length is \<longrightarrow> \<not> covers12 d (pos + 12 + 12 * j) c"
      proof (intro allI impI)
        fix j assume "k' < j \<and> j < length is"
        with c Suc have "\<not> covers12 d (pos + 12 * Suc j) c" by auto
        then show "\<not> covers12 d (pos + 12 + 12 * j) c" unfolding shift .
      qed
      ultimately have "m' c = Some (glyph12 d (pos + 12 + 12 * k') c)"
        using ih k' by blast
      then show ?thesis using Suc unfolding shift by simp
    qed
  qed
  from some none show ?case by blast
qed

text \<open>
  Claim C4, as amended. When a format 12 subtable parses, then for every group
  (startCharCode, endCharCode, startGlyphId) and every code point in its range that no later
  group covers, the resulting map assigns the glyph
  \<open>startGlyphId + (code - startCharCode)\<close>. (Groups are applied in order, so where ranges
  overlap the last covering group decides.)
\<close>

theorem cmap_format12_groups:
  assumes "parse_cmap_format12 d offset = Inr m"
    and "i < fmt12_num_groups d offset"
    and "fmt12_group_at d offset i = (start_char, end_char, start_glyph)"
    and "start_char \<le> code" and "code \<le> end_char"
    and "\<forall>j. i < j \<and> j < fmt12_num_groups d offset \<longrightarrow>
           \<not> (fst (fmt12_group_at d offset j) \<le> code \<and> code \<le> fst (snd (fmt12_group_at d offset j)))"
  shows "m code = Some (start_glyph + (code - start_char))"
proof -
  from assms(1) have l: "length (slice d (offset + 4) (offset + 16)) = 12"
    by (auto simp: parse_cmap_format12_def Let_def split: if_splits)
  have n: "be_nat (slice (slice d (offset + 4) (offset + 16)) 8 12) = fmt12_num_groups d offset"
    by (simp add: slice_slice fmt12_num_groups_def add.commute)
  from assms(1) l n obtain pos' where
    f: "foldM (fmt12_group d) (Map.empty, offset + 16) [0..<fmt12_num_groups d offset] = Inr (m, pos')"
    by (cases "foldM (fmt12_group d) (Map.empty, offset + 16) [0..<fmt12_num_groups d offset]")
       (auto simp: parse_cmap_format12_def Let_def ebind_def split: if_splits)
  have cov: "\<And>k. covers12 d (offset + 16 + 12 * k) code
      = (fst (fmt12_group_at d offset k) \<le> code \<and> code \<le> fst (snd (fmt12_group_at d offset k)))"
    by (simp add: covers12_def fmt12_group_at_def Let_def add.assoc)
  have "covers12 d (offset + 16 + 12 * i) code"
    using assms(3,4,5) by (simp add: cov)
  moreover have "\<forall>j. i < j \<and> j < length [0..<fmt12_num_groups d offset]
      \<longrightarrow> \<not> covers12 d (offset + 16 + 12 * j) code"
    using assms(6) by (simp add: cov)
  ultimately have "m code = Some (glyph12 d (offset + 16 + 12 * i) code)"
    using fmt12_groups_fold [OF f, of code] assms(2) by simp
  then show ?thesis
    using assms(3) by (simp add: glyph12_def fmt12_group_at_def Let_def add.assoc)
qed


lemmas cmap12_eval = parse_cmap_format12_def fmt12_group_def fmt12_code_def fmt12_num_groups_def
  fmt12_group_at_def u16be_def u32be_def slice_def ebind_def Let_def upt_eval

lemma sample_cmap12_parse:
  "parse_cmap_format12 sample_cmap12 0 = Inr [65536 \<mapsto> 500, 65537 \<mapsto> 501, 65538 \<mapsto> 502]"
  by (simp add: sample_cmap12_def cmap12_eval)

lemma sample_cmap12_groups:
  "fmt12_num_groups sample_cmap12 0 = 1"
  "fmt12_group_at sample_cmap12 0 0 = (65536, 65538, 500)"
  by (simp_all add: sample_cmap12_def cmap12_eval)

text \<open>The instance of the claim: the single group \<open>(0x10000, 0x10002, 500)\<close> resolves the code
  point \<open>0x10001\<close> to glyph 501.\<close>

theorem cmap_format12_groups_witness:
  "parse_cmap_format12 sample_cmap12 0 = Inr [65536 \<mapsto> 500, 65537 \<mapsto> 501, 65538 \<mapsto> 502]
   \<and> fmt12_num_groups sample_cmap12 0 = 1
   \<and> fmt12_group_at sample_cmap12 0 0 = (65536, 65538, 500)
   \<and> [65536 \<mapsto> 500, 65537 \<mapsto> 501, 65538 \<mapsto> 502] (65537 :: nat) = Some (501 :: nat)"
proof -
  have h2: "0 < fmt12_num_groups sample_cmap12 0" by (simp add: sample_cmap12_groups)
  have h6: "\<forall>j. 0 < j \<and> j < fmt12_num_groups sample_cmap12 0 \<longrightarrow>
           \<not> (fst (fmt12_group_at sample_cmap12 0 j) \<le> 65537
                \<and> 65537 \<le> fst (snd (fmt12_group_at sample_cmap12 0 j)))"
    by (auto simp: sample_cmap12_groups(1))
  have "[65536 \<mapsto> 500, 65537 \<mapsto> 501, 65538 \<mapsto> 502] (65537 :: nat) = Some (500 + (65537 - 65536 :: nat))"
    by (rule cmap_format12_groups [OF sample_cmap12_parse h2 sample_cmap12_groups(2) _ _ h6]) simp_all
  then show ?thesis
    using sample_cmap12_parse sample_cmap12_groups by simp
qed

text \<open>
  Claim C4 as stated fails where groups overlap: with the groups \<open>(0x41, 0x41, 5)\<close> and
  \<open>(0x41, 0x41, 9)\<close> the code point \<open>0x41\<close> lies in the first group, whose formula gives
  glyph 5, and the resulting map assigns glyph 9.
\<close>

theorem cmap_format12_groups_counterexample:
  "parse_cmap_format12 overlap_cmap12 0 = Inr [65 \<mapsto> 9]
   \<and> fmt12_num_groups overlap_cmap12 0 = 2
   \<and> fmt12_group_at overlap_cmap12 0 0 = (65, 65, 5)
   \<and> fmt12_group_at overlap_cmap12 0 1 = (65, 65, 9)"
  by (simp add: overlap_cmap12_def cmap12_eval)


end
